theory Spec2Isabelle
  imports Main
begin

section \<open>Go integers and panics\<close>

text \<open>
  The library computes on Go's \<^verbatim>\<open>int\<close> (and on \<^verbatim>\<open>Modulus\<close>, \<^verbatim>\<open>intPos\<close>,
  \<^verbatim>\<open>intSize\<close>, which are named \<^verbatim>\<open>int\<close> types). On the 64-bit platforms Go's
  \<^verbatim>\<open>int\<close> is a two's complement 64-bit integer whose \<^verbatim>\<open>+\<close> and \<^verbatim>\<open>-\<close> wrap around
  silently. The model keeps the values as mathematical integers and writes the wrap-around
  out: every sum and difference of the source is passed through \<open>wrap64\<close>. The predicate
  \<open>int64\<close> says that an integer is a value of the Go type.
\<close>

definition int64 :: "int \<Rightarrow> bool" where
  "int64 x \<longleftrightarrow> - (2 ^ 63) \<le> x \<and> x < 2 ^ 63"

definition wrap64 :: "int \<Rightarrow> int" where
  "wrap64 x = (x + 2 ^ 63) mod 2 ^ 64 - 2 ^ 63"

text \<open>
  Go's \<^verbatim>\<open>%\<close> truncates towards zero: the remainder has the sign of the dividend.
  HOL's \<open>mod\<close> rounds towards minus infinity, so the remainder is written out.
\<close>

definition go_rem :: "int \<Rightarrow> int \<Rightarrow> int" where
  "go_rem a b = sgn a * (\<bar>a\<bar> mod \<bar>b\<bar>)"

text \<open>
  A panic is a value: \<open>InvalidModulus\<close> and \<open>InvalidSize\<close> are the two explicit
  \<^verbatim>\<open>panic(fmt.Errorf(...))\<close> of \<^verbatim>\<open>FromStartSizeInt\<close>, \<open>DivideByZero\<close> is the
  run-time panic of \<^verbatim>\<open>%\<close> with a zero divisor.
\<close>

datatype panic = InvalidModulus | InvalidSize | DivideByZero

definition and_then :: "panic + 'a \<Rightarrow> ('a \<Rightarrow> panic + 'b) \<Rightarrow> panic + 'b" where
  "and_then r f = (case r of Inl e \<Rightarrow> Inl e | Inr v \<Rightarrow> f v)"

definition intMin :: "int \<Rightarrow> int \<Rightarrow> int" where
  "intMin a b = (if a < b then a else b)"

definition intMax :: "int \<Rightarrow> int \<Rightarrow> int" where
  "intMax a b = (if a > b then a else b)"

section \<open>Modulus\<close>

text \<open>\<^verbatim>\<open>func (m Modulus) GoModulo(a int) int { return a % m.Int() }\<close>\<close>

definition GoModulo :: "int \<Rightarrow> int \<Rightarrow> panic + int" where
  "GoModulo m a = (if m = 0 then Inl DivideByZero else Inr (go_rem a m))"

definition ArrayOffset :: "int \<Rightarrow> int \<Rightarrow> panic + int" where
  "ArrayOffset m position =
     and_then (GoModulo m position) (\<lambda>maybeNegative.
       if maybeNegative < 0 then Inr (wrap64 (maybeNegative + m))
       else Inr maybeNegative)"

definition forwardDistance :: "int \<Rightarrow> int \<Rightarrow> int \<Rightarrow> int" where
  "forwardDistance m a b =
     (let b' = (if b < a then wrap64 (b + m) else b) in wrap64 (b' - a))"

definition IntervalSizeForward :: "int \<Rightarrow> int \<Rightarrow> int \<Rightarrow> panic + int" where
  "IntervalSizeForward m a b =
     and_then (ArrayOffset m a) (\<lambda>a'.
     and_then (ArrayOffset m b) (\<lambda>b'.
       Inr (forwardDistance m a' b')))"

definition IntervalSizeMin :: "int \<Rightarrow> int \<Rightarrow> int \<Rightarrow> panic + int" where
  "IntervalSizeMin m a b =
     and_then (ArrayOffset m a) (\<lambda>a'.
     and_then (ArrayOffset m b) (\<lambda>b'.
       Inr (intMin (forwardDistance m a' b') (forwardDistance m b' a'))))"

section \<open>IntInterval\<close>

text \<open>
  \<^verbatim>\<open>type IntInterval struct { modulus Modulus; start intPos; size intSize }\<close>.
  The fields are unexported: outside the package an interval is the zero value or comes
  from \<^verbatim>\<open>FromStartSizeInt\<close>, directly or through the \<^verbatim>\<open>Expand\<close> methods.
\<close>

record IntInterval =
  iv_modulus :: int
  iv_start :: int
  iv_size :: int

text \<open>
  \<^verbatim>\<open>FromStartSizeInt\<close>: the two explicit panics, the clamping of the size, and the
  struct literal, whose field \<^verbatim>\<open>intPos(m.ArrayOffset(start))\<close> is evaluated last.
  The parameter \<^verbatim>\<open>size\<close> is \<open>sz\<close> here, \<open>size\<close> being a constant of HOL.
\<close>

definition FromStartSizeInt :: "int \<Rightarrow> int \<Rightarrow> int \<Rightarrow> panic + IntInterval" where
  "FromStartSizeInt m start sz =
     (if m < 0 then Inl InvalidModulus
      else if sz > m then
        and_then (ArrayOffset m start) (\<lambda>s.
          Inr \<lparr>iv_modulus = m, iv_start = s, iv_size = m\<rparr>)
      else if sz < 0 then Inl InvalidSize
      else
        and_then (ArrayOffset m start) (\<lambda>s.
          Inr \<lparr>iv_modulus = m, iv_start = s, iv_size = sz\<rparr>))"

definition Size :: "IntInterval \<Rightarrow> int" where
  "Size iv = iv_size iv"

definition Modulus :: "IntInterval \<Rightarrow> int" where
  "Modulus iv = iv_modulus iv"

definition Start :: "IntInterval \<Rightarrow> int" where
  "Start iv = iv_start iv"

definition End :: "IntInterval \<Rightarrow> panic + int" where
  "End iv = ArrayOffset (iv_modulus iv) (wrap64 (iv_start iv + iv_size iv))"

definition IsEmpty :: "IntInterval \<Rightarrow> bool" where
  "IsEmpty iv \<longleftrightarrow> iv_size iv = 0"

definition IsComplete :: "IntInterval \<Rightarrow> bool" where
  "IsComplete iv \<longleftrightarrow> Size iv = iv_modulus iv"

text \<open>
  The loop of \<^verbatim>\<open>ExpandStart\<close> over the position designators, with the running
  \<^verbatim>\<open>minStart\<close> as accumulator. \<^verbatim>\<open>iv.End()\<close> is called in every iteration.
\<close>

fun ExpandStart_loop :: "IntInterval \<Rightarrow> int list \<Rightarrow> int \<Rightarrow> panic + int" where
  "ExpandStart_loop iv [] minStart = Inr minStart"
| "ExpandStart_loop iv (val # rest) minStart =
     (case ArrayOffset (Modulus iv) val of
        Inl e \<Rightarrow> Inl e
      | Inr offset \<Rightarrow>
          (case End iv of
             Inl e \<Rightarrow> Inl e
           | Inr end_iv \<Rightarrow>
               ExpandStart_loop iv rest
                 (intMin minStart
                    (if offset \<ge> end_iv then wrap64 (offset - Modulus iv) else offset))))"

definition ExpandStart :: "IntInterval \<Rightarrow> int list \<Rightarrow> panic + IntInterval" where
  "ExpandStart iv positionDesignator =
     (if IsComplete iv \<or> length positionDesignator = 0 then Inr iv
      else
        and_then (ExpandStart_loop iv positionDesignator (iv_start iv)) (\<lambda>minStart.
        and_then (End iv) (\<lambda>end_iv.
          FromStartSizeInt (Modulus iv) minStart (wrap64 (end_iv - minStart)))))"

text \<open>The loop of \<^verbatim>\<open>ExpandEnd\<close>, with the running \<^verbatim>\<open>maxEnd\<close> as accumulator.\<close>

fun ExpandEnd_loop :: "IntInterval \<Rightarrow> int list \<Rightarrow> int \<Rightarrow> panic + int" where
  "ExpandEnd_loop iv [] maxEnd = Inr maxEnd"
| "ExpandEnd_loop iv (val # rest) maxEnd =
     (case ArrayOffset (Modulus iv) (wrap64 (val + 1)) of
        Inl e \<Rightarrow> Inl e
      | Inr minEndToContainPosition \<Rightarrow>
          ExpandEnd_loop iv rest
            (intMax maxEnd
               (if minEndToContainPosition < Start iv
                then wrap64 (minEndToContainPosition + Modulus iv)
                else minEndToContainPosition)))"

definition ExpandEnd :: "IntInterval \<Rightarrow> int list \<Rightarrow> panic + IntInterval" where
  "ExpandEnd iv positionDesignator =
     (if IsComplete iv \<or> length positionDesignator = 0 then Inr iv
      else
        and_then (End iv) (\<lambda>origEnd.
        and_then (ExpandEnd_loop iv positionDesignator origEnd) (\<lambda>maxEnd.
          FromStartSizeInt (Modulus iv) (Start iv) (wrap64 (maxEnd - Start iv)))))"

definition ExpandMinimal :: "IntInterval \<Rightarrow> int list \<Rightarrow> panic + IntInterval" where
  "ExpandMinimal iv positionDesignator =
     and_then (ExpandStart iv positionDesignator) (\<lambda>a.
     and_then (ExpandEnd iv positionDesignator) (\<lambda>b.
       if Size a > Size b then Inr b else Inr a))"

section \<open>RealIntInterval\<close>

text \<open>\<^verbatim>\<open>type RealIntInterval struct { start, size int }\<close>\<close>

record RealIntInterval =
  r_start :: int
  r_size :: int

definition RealEmpty :: RealIntInterval where
  "RealEmpty = \<lparr>r_start = 0, r_size = 0\<rparr>"

definition RealFromStartSize :: "int \<Rightarrow> int \<Rightarrow> RealIntInterval" where
  "RealFromStartSize start sz = \<lparr>r_start = start, r_size = sz\<rparr>"

definition Real_Size :: "RealIntInterval \<Rightarrow> int" where
  "Real_Size r = r_size r"

definition Real_IsEmpty :: "RealIntInterval \<Rightarrow> bool" where
  "Real_IsEmpty r \<longleftrightarrow> Real_Size r = 0"

definition Real_Start :: "RealIntInterval \<Rightarrow> int" where
  "Real_Start r = r_start r"

definition Real_End :: "RealIntInterval \<Rightarrow> int" where
  "Real_End r = wrap64 (r_start r + r_size r)"

definition Real_Contains :: "RealIntInterval \<Rightarrow> int \<Rightarrow> bool" where
  "Real_Contains r i \<longleftrightarrow> Real_Start r \<le> i \<and> i < Real_End r"

definition Real_Intersection :: "RealIntInterval \<Rightarrow> RealIntInterval \<Rightarrow> RealIntInterval" where
  "Real_Intersection r other =
     (let start = intMax (Real_Start r) (Real_Start other);
          end_r = intMax (Real_End r) (Real_End other)
      in if end_r \<le> start then RealEmpty
         else RealFromStartSize start (wrap64 (end_r - start)))"

section \<open>Decomposition, membership and equality of an IntInterval\<close>

definition realIntervals :: "IntInterval \<Rightarrow> RealIntInterval \<times> RealIntInterval" where
  "realIntervals iv =
     (if IsEmpty iv then (\<lparr>r_start = 0, r_size = 0\<rparr>, \<lparr>r_start = 0, r_size = 0\<rparr>)
      else
        let max_size = wrap64 (iv_modulus iv - Start iv);
            sameStartSize = (if Size iv > max_size then max_size else Size iv)
        in (RealFromStartSize (Start iv) sameStartSize,
            RealFromStartSize 0 (wrap64 (Size iv - sameStartSize))))"

definition ContainsExactInt :: "IntInterval \<Rightarrow> int \<Rightarrow> bool" where
  "ContainsExactInt iv i =
     (case realIntervals iv of (a, b) \<Rightarrow> Real_Contains a i \<or> Real_Contains b i)"

definition Contains :: "IntInterval \<Rightarrow> int \<Rightarrow> panic + bool" where
  "Contains iv positionDesignator =
     and_then (ArrayOffset (Modulus iv) positionDesignator) (\<lambda>i.
       Inr (ContainsExactInt iv i))"

definition RealIntervals :: "IntInterval \<Rightarrow> RealIntInterval list" where
  "RealIntervals iv =
     (case realIntervals iv of (a, b) \<Rightarrow>
        if Real_IsEmpty a \<and> Real_IsEmpty b then []
        else if Real_IsEmpty b then [a]
        else [a, b])"

definition normalized :: "IntInterval \<Rightarrow> panic + IntInterval" where
  "normalized iv =
     (if \<not> IsComplete iv then Inr iv
      else FromStartSizeInt (Modulus iv) 0 (Size iv))"

definition EqualSets :: "IntInterval \<Rightarrow> IntInterval \<Rightarrow> panic + bool" where
  "EqualSets iv other =
     (let sizesEqual = (Size iv = Size other) in
      if \<not> sizesEqual then Inr False
      else if IsEmpty iv then Inr True
      else
        and_then (normalized iv) (\<lambda>a.
        and_then (normalized other) (\<lambda>b.
          Inr (Start a = Start b))))"

section \<open>The span of the interval-set tests\<close>

text \<open>
  \<^verbatim>\<open>type span struct { min, max int }\<close> is the half-open interval \<open>[min, max)\<close> the
  interval-set tests run the set engine on. Its methods only compare and copy the two
  bounds. \<^verbatim>\<open>min\<close> and \<^verbatim>\<open>max\<close> are the file's own helpers.
\<close>

record span =
  s_min :: int
  s_max :: int

definition zero :: span where
  "zero = \<lparr>s_min = 0, s_max = 0\<rparr>"

definition go_min :: "int \<Rightarrow> int \<Rightarrow> int" where
  "go_min a b = (if a < b then a else b)"

definition go_max :: "int \<Rightarrow> int \<Rightarrow> int" where
  "go_max a b = (if a > b then a else b)"

definition Intersect :: "span \<Rightarrow> span \<Rightarrow> span" where
  "Intersect s t =
     (let result = \<lparr>s_min = go_max (s_min s) (s_min t), s_max = go_min (s_max s) (s_max t)\<rparr>
      in if s_min result < s_max result then result else zero)"

definition Before :: "span \<Rightarrow> span \<Rightarrow> bool" where
  "Before s t \<longleftrightarrow> s_max s \<le> s_min t"

definition IsZero :: "span \<Rightarrow> bool" where
  "IsZero s \<longleftrightarrow> s_min s = 0 \<and> s_max s = 0"

definition maybeZero :: "int \<Rightarrow> int \<Rightarrow> span" where
  "maybeZero lo hi = (if lo = hi then zero else \<lparr>s_min = lo, s_max = hi\<rparr>)"

definition Bisect :: "span \<Rightarrow> span \<Rightarrow> span \<times> span" where
  "Bisect s t =
     (let intersection = Intersect s t in
      if IsZero intersection then
        (if Before s t then (s, zero) else (zero, s))
      else
        (maybeZero (s_min s) (s_min intersection),
         maybeZero (s_max intersection) (s_max s)))"

text \<open>The integers a span and a real interval stand for.\<close>

definition points :: "span \<Rightarrow> int set" where
  "points s = {x. s_min s \<le> x \<and> x < s_max s}"

definition real_points :: "RealIntInterval \<Rightarrow> int set" where
  "real_points r = {i. Real_Contains r i}"

section \<open>The invariant of a constructed interval\<close>

text \<open>
  What \<^verbatim>\<open>FromStartSizeInt\<close> establishes for a positive modulus (lemma
  \<open>FromStartSizeInt_valid\<close> below): the start is normalized and the size is clamped.
\<close>

definition valid :: "IntInterval \<Rightarrow> bool" where
  "valid iv \<longleftrightarrow>
     0 < iv_modulus iv \<and> int64 (iv_modulus iv) \<and>
     0 \<le> iv_start iv \<and> iv_start iv < iv_modulus iv \<and>
     0 \<le> iv_size iv \<and> iv_size iv \<le> iv_modulus iv"

section \<open>Facts about the integer model\<close>

lemma wrap64_id: "int64 x \<Longrightarrow> wrap64 x = x"
  unfolding int64_def wrap64_def by simp

lemma int64_wrap64: "int64 (wrap64 x)"
proof -
  have "0 \<le> (x + 2 ^ 63) mod (2 ^ 64 :: int)" and "(x + 2 ^ 63) mod (2 ^ 64 :: int) < 2 ^ 64"
    by simp_all
  then show ?thesis unfolding int64_def wrap64_def by simp
qed

lemma wrap64_cong_mod: "x mod 2 ^ 64 = y mod 2 ^ 64 \<Longrightarrow> wrap64 x = wrap64 y"
  unfolding wrap64_def by (metis mod_add_left_eq)

lemma wrap64_mod: "wrap64 x mod 2 ^ 64 = x mod 2 ^ 64"
proof -
  have "((x + 2 ^ 63) mod 2 ^ 64 - 2 ^ 63) mod (2 ^ 64 :: int) = (x + 2 ^ 63 - 2 ^ 63) mod 2 ^ 64"
    by (rule mod_diff_left_eq)
  then show ?thesis unfolding wrap64_def by simp
qed

lemma wrap64_diff_left: "wrap64 (wrap64 x - y) = wrap64 (x - y)"
proof (rule wrap64_cong_mod)
  have "(wrap64 x - y) mod 2 ^ 64 = (wrap64 x mod 2 ^ 64 - y) mod 2 ^ 64"
    by (rule mod_diff_left_eq [symmetric])
  also have "\<dots> = (x mod 2 ^ 64 - y) mod 2 ^ 64"
    by (rule arg_cong [where f = "\<lambda>t. (t - y) mod 2 ^ 64"]) (rule wrap64_mod)
  also have "\<dots> = (x - y) mod 2 ^ 64"
    by (rule mod_diff_left_eq)
  finally show "(wrap64 x - y) mod 2 ^ 64 = (x - y) mod 2 ^ 64" .
qed

lemma go_rem_nonneg: "0 \<le> a \<Longrightarrow> 0 < m \<Longrightarrow> go_rem a m = a mod m"
  unfolding go_rem_def by (cases "a = 0") simp_all

lemma go_rem_neg: "a < 0 \<Longrightarrow> 0 < m \<Longrightarrow> go_rem a m = - ((- a) mod m)"
  unfolding go_rem_def by simp

lemma go_rem_neg_floor:
  assumes "a < 0" and "0 < m"
  shows "go_rem a m = (if a mod m = 0 then 0 else a mod m - m)"
proof -
  have "(- a) mod m = (if a mod m = 0 then 0 else m - a mod m)"
    using assms by (simp add: zmod_zminus1_eq_if)
  then show ?thesis using assms by (simp add: go_rem_neg)
qed

text \<open>For a positive modulus, \<^verbatim>\<open>ArrayOffset\<close> is the flooring remainder.\<close>

lemma ArrayOffset_pos:
  assumes "0 < m" and "int64 m"
  shows "ArrayOffset m p = Inr (p mod m)"
proof (cases "p < 0")
  case False
  moreover have "\<not> p mod m < 0" using assms by (simp add: not_less)
  ultimately show ?thesis
    using assms by (simp add: ArrayOffset_def GoModulo_def and_then_def go_rem_nonneg)
next
  case True
  show ?thesis
  proof (cases "p mod m = 0")
    case True
    with \<open>p < 0\<close> assms show ?thesis
      by (simp add: ArrayOffset_def GoModulo_def and_then_def go_rem_neg_floor)
  next
    case False
    have lo: "0 \<le> p mod m" and hi: "p mod m < m" using assms by simp_all
    from lo False have pos: "0 < p mod m" by linarith
    have "int64 (p mod m)" using lo hi assms unfolding int64_def by linarith
    then have w: "wrap64 (p mod m) = p mod m" by (rule wrap64_id)
    from False \<open>p < 0\<close> assms have "go_rem p m = p mod m - m"
      by (simp add: go_rem_neg_floor)
    with hi w assms show ?thesis
      by (simp add: ArrayOffset_def GoModulo_def and_then_def)
  qed
qed

lemma int64_between: "int64 m \<Longrightarrow> - m \<le> x \<Longrightarrow> x \<le> m \<Longrightarrow> int64 x"
  unfolding int64_def by linarith

lemma int64_10: "int64 10"
  by (simp add: int64_def)

text \<open>
  On normalized arguments the two wrapping operations of \<^verbatim>\<open>forwardDistance\<close> cancel:
  the sum \<open>b + m\<close> may leave the 64-bit range, the difference is back in it.
\<close>

lemma forwardDistance_normal:
  assumes "0 < m" and "int64 m" and "0 \<le> a" and "a < m" and "0 \<le> b" and "b < m"
  shows "forwardDistance m a b = (if b < a then b - a + m else b - a)"
proof (cases "b < a")
  case True
  have "int64 (b + m - a)" using assms True by (rule_tac int64_between [of m]) simp_all
  then have "wrap64 (b + m - a) = b + m - a" by (rule wrap64_id)
  then have "wrap64 (wrap64 (b + m) - a) = b + m - a" by (simp only: wrap64_diff_left)
  with True show ?thesis by (simp add: forwardDistance_def)
next
  case False
  have "int64 (b - a)" using assms False by (rule_tac int64_between [of m]) simp_all
  then have "wrap64 (b - a) = b - a" by (rule wrap64_id)
  with False show ?thesis by (simp add: forwardDistance_def)
qed

lemma IntervalSizeForward_pos:
  assumes "0 < m" and "int64 m"
  shows "IntervalSizeForward m a b =
    Inr (if b mod m < a mod m then b mod m - a mod m + m else b mod m - a mod m)"
proof -
  have "forwardDistance m (a mod m) (b mod m) =
      (if b mod m < a mod m then b mod m - a mod m + m else b mod m - a mod m)"
    using assms by (intro forwardDistance_normal) simp_all
  then show ?thesis
    using assms by (simp add: IntervalSizeForward_def ArrayOffset_pos and_then_def)
qed

lemma IntervalSizeMin_pos:
  assumes "0 < m" and "int64 m"
  shows "IntervalSizeMin m a b =
    Inr (intMin (if b mod m < a mod m then b mod m - a mod m + m else b mod m - a mod m)
                (if a mod m < b mod m then a mod m - b mod m + m else a mod m - b mod m))"
proof -
  have "forwardDistance m (a mod m) (b mod m) =
      (if b mod m < a mod m then b mod m - a mod m + m else b mod m - a mod m)"
    using assms by (intro forwardDistance_normal) simp_all
  moreover have "forwardDistance m (b mod m) (a mod m) =
      (if a mod m < b mod m then a mod m - b mod m + m else a mod m - b mod m)"
    using assms by (intro forwardDistance_normal) simp_all
  ultimately show ?thesis
    using assms by (simp add: IntervalSizeMin_def ArrayOffset_pos and_then_def)
qed

section \<open>Facts about constructed intervals\<close>

lemma FromStartSizeInt_pos:
  assumes "0 < m" and "int64 m"
  shows "FromStartSizeInt m st sz =
    (if sz < 0 then Inl InvalidSize
     else Inr \<lparr>iv_modulus = m, iv_start = st mod m, iv_size = (if sz > m then m else sz)\<rparr>)"
  using assms by (simp add: FromStartSizeInt_def ArrayOffset_pos and_then_def)

lemma FromStartSizeInt_valid:
  assumes "FromStartSizeInt m st sz = Inr iv" and "0 < m" and "int64 m"
  shows "valid iv \<and> iv_modulus iv = m"
proof -
  have "0 \<le> st mod m" and "st mod m < m" using assms by simp_all
  with assms show ?thesis
    by (auto simp add: FromStartSizeInt_pos valid_def split: if_splits)
qed

lemma wrap64_valid:
  assumes "valid iv" and "- iv_modulus iv \<le> x" and "x \<le> iv_modulus iv"
  shows "wrap64 x = x"
proof -
  have "int64 (iv_modulus iv)" using assms by (simp add: valid_def)
  then have "int64 x" using assms(2,3) by (rule int64_between)
  then show ?thesis by (rule wrap64_id)
qed

lemma realIntervals_valid:
  assumes "valid iv"
  shows "realIntervals iv =
    (if iv_size iv = 0 then (\<lparr>r_start = 0, r_size = 0\<rparr>, \<lparr>r_start = 0, r_size = 0\<rparr>)
     else if iv_start iv + iv_size iv \<le> iv_modulus iv
       then (\<lparr>r_start = iv_start iv, r_size = iv_size iv\<rparr>, \<lparr>r_start = 0, r_size = 0\<rparr>)
     else (\<lparr>r_start = iv_start iv, r_size = iv_modulus iv - iv_start iv\<rparr>,
           \<lparr>r_start = 0, r_size = iv_size iv - (iv_modulus iv - iv_start iv)\<rparr>))"
proof -
  have v: "0 \<le> iv_start iv" "iv_start iv < iv_modulus iv" "0 \<le> iv_size iv"
    "iv_size iv \<le> iv_modulus iv"
    using assms by (simp_all add: valid_def)
  have w1: "wrap64 (iv_modulus iv - iv_start iv) = iv_modulus iv - iv_start iv"
    using v by (intro wrap64_valid [OF assms]) linarith+
  have w2: "wrap64 (iv_size iv - (iv_modulus iv - iv_start iv)) =
      iv_size iv - (iv_modulus iv - iv_start iv)"
    using v by (intro wrap64_valid [OF assms]) linarith+
  have w3: "wrap64 0 = 0" by (simp add: wrap64_def)
  show ?thesis
    using v by (auto simp add: realIntervals_def IsEmpty_def Size_def Start_def Let_def
        RealFromStartSize_def w1 w2 w3)
qed

lemma Real_Contains_small:
  assumes "int64 m" and "0 \<le> s" and "0 \<le> z" and "s + z \<le> m"
  shows "Real_Contains \<lparr>r_start = s, r_size = z\<rparr> i \<longleftrightarrow> s \<le> i \<and> i < s + z"
proof -
  have "int64 (s + z)" using assms by (rule_tac int64_between [of m]) simp_all
  then have "wrap64 (s + z) = s + z" by (rule wrap64_id)
  then show ?thesis by (simp add: Real_Contains_def Real_Start_def Real_End_def)
qed

lemma Real_End_small:
  assumes "int64 m" and "0 \<le> s" and "0 \<le> z" and "s + z \<le> m"
  shows "Real_End \<lparr>r_start = s, r_size = z\<rparr> = s + z"
proof -
  have "int64 (s + z)" using assms by (rule_tac int64_between [of m]) simp_all
  then have "wrap64 (s + z) = s + z" by (rule wrap64_id)
  then show ?thesis by (simp add: Real_End_def)
qed

lemma ContainsExactInt_valid:
  assumes "valid iv"
  shows "ContainsExactInt iv i \<longleftrightarrow>
    (iv_start iv \<le> i \<and> i < iv_start iv + iv_size iv \<and> i < iv_modulus iv) \<or>
    (0 \<le> i \<and> i < iv_start iv + iv_size iv - iv_modulus iv)"
proof -
  have v: "0 \<le> iv_start iv" "iv_start iv < iv_modulus iv" "0 \<le> iv_size iv"
    "iv_size iv \<le> iv_modulus iv" "int64 (iv_modulus iv)"
    using assms by (simp_all add: valid_def)
  have z: "\<And>j. Real_Contains \<lparr>r_start = 0, r_size = 0\<rparr> j \<longleftrightarrow> False"
    using v(5) by (subst Real_Contains_small [of "iv_modulus iv"]) (use v in simp_all)
  show ?thesis
  proof (cases "iv_size iv = 0")
    case True
    then show ?thesis using v by (simp add: ContainsExactInt_def realIntervals_valid [OF assms] z)
  next
    case nz: False
    show ?thesis
    proof (cases "iv_start iv + iv_size iv \<le> iv_modulus iv")
      case True
      have "Real_Contains \<lparr>r_start = iv_start iv, r_size = iv_size iv\<rparr> i \<longleftrightarrow>
          iv_start iv \<le> i \<and> i < iv_start iv + iv_size iv"
        using v True by (intro Real_Contains_small [of "iv_modulus iv"]) simp_all
      with nz True v show ?thesis
        by (auto simp add: ContainsExactInt_def realIntervals_valid [OF assms] z)
    next
      case False
      have a: "Real_Contains \<lparr>r_start = iv_start iv, r_size = iv_modulus iv - iv_start iv\<rparr> i \<longleftrightarrow>
          iv_start iv \<le> i \<and> i < iv_start iv + (iv_modulus iv - iv_start iv)"
        using v False by (intro Real_Contains_small [of "iv_modulus iv"]) simp_all
      have b: "Real_Contains \<lparr>r_start = 0, r_size = iv_size iv - (iv_modulus iv - iv_start iv)\<rparr> i \<longleftrightarrow>
          0 \<le> i \<and> i < 0 + (iv_size iv - (iv_modulus iv - iv_start iv))"
        using v False by (intro Real_Contains_small [of "iv_modulus iv"]) simp_all
      from nz False v show ?thesis
        by (auto simp add: ContainsExactInt_def realIntervals_valid [OF assms] a b)
    qed
  qed
qed

lemma real_points_small:
  assumes "int64 m" and "0 \<le> s" and "0 \<le> z" and "s + z \<le> m"
  shows "real_points \<lparr>r_start = s, r_size = z\<rparr> = {s..<s + z}"
  by (auto simp add: real_points_def Real_Contains_small [OF assms])

lemma Contains_valid:
  assumes "valid iv"
  shows "Contains iv p = Inr (ContainsExactInt iv (p mod iv_modulus iv))"
  using assms by (simp add: Contains_def Modulus_def valid_def ArrayOffset_pos and_then_def)

lemma FromStartSizeInt_10_9_4: "FromStartSizeInt 10 9 4 = Inr \<lparr>iv_modulus = 10, iv_start = 9, iv_size = 4\<rparr>"
  by (simp add: FromStartSizeInt_pos int64_10)

lemma FromStartSizeInt_fails_iff:
  assumes "int64 m"
  shows "(\<exists>e. FromStartSizeInt m st sz = Inl e) \<longleftrightarrow> m \<le> 0 \<or> sz < 0"
proof (cases "0 < m")
  case True
  with assms show ?thesis by (simp add: FromStartSizeInt_pos)
next
  case False
  then show ?thesis
    by (cases "m = 0")
      (simp_all add: FromStartSizeInt_def ArrayOffset_def GoModulo_def and_then_def)
qed

lemma normalized_valid:
  assumes "valid iv"
  shows "normalized iv =
    Inr (if IsComplete iv then iv\<lparr>iv_start := 0\<rparr> else iv)"
  using assms
  by (simp add: normalized_def FromStartSizeInt_pos Modulus_def Size_def IsComplete_def valid_def)

lemma FromStartSizeInt_10_5_2: "FromStartSizeInt 10 5 2 = Inr \<lparr>iv_modulus = 10, iv_start = 5, iv_size = 2\<rparr>"
  by (simp add: FromStartSizeInt_pos int64_10)

lemmas eval_simps = ExpandStart_def ExpandEnd_def ExpandMinimal_def End_def Modulus_def
  Start_def Size_def IsComplete_def and_then_def intMin_def intMax_def wrap64_id int64_def
  FromStartSizeInt_pos ArrayOffset_pos

section \<open>Facts about spans\<close>

lemma points_zero: "points zero = {}"
  by (simp add: points_def zero_def)

lemma points_maybeZero: "points (maybeZero lo hi) = {x. lo \<le> x \<and> x < hi}"
  by (auto simp add: maybeZero_def points_def zero_def)

lemma points_inter:
  "points s \<inter> points t = {x. go_max (s_min s) (s_min t) \<le> x \<and> x < go_min (s_max s) (s_max t)}"
  by (auto simp add: points_def go_max_def go_min_def)

lemma Intersect_overlap:
  assumes "go_max (s_min s) (s_min t) < go_min (s_max s) (s_max t)"
  shows "Intersect s t = \<lparr>s_min = go_max (s_min s) (s_min t), s_max = go_min (s_max s) (s_max t)\<rparr>"
    and "\<not> IsZero (Intersect s t)"
  using assms by (auto simp add: Intersect_def IsZero_def Let_def)

lemma Intersect_no_overlap:
  assumes "\<not> go_max (s_min s) (s_min t) < go_min (s_max s) (s_max t)"
  shows "Intersect s t = zero" and "IsZero (Intersect s t)"
  using assms by (simp_all add: Intersect_def IsZero_def Let_def zero_def)

lemma points_nonempty: "points t \<noteq> {} \<longleftrightarrow> s_min t < s_max t"
proof
  assume "points t \<noteq> {}"
  then obtain x where "s_min t \<le> x" and "x < s_max t" by (auto simp add: points_def)
  then show "s_min t < s_max t" by linarith
next
  assume "s_min t < s_max t"
  then have "s_min t \<in> points t" by (simp add: points_def)
  then show "points t \<noteq> {}" by blast
qed

lemma below_all_points:
  assumes "s_min t < s_max t"
  shows "{x \<in> points s. \<forall>y \<in> points t. x < y} = {x \<in> points s. x < s_min t}"
proof (intro set_eqI iffI)
  fix x assume a: "x \<in> {x \<in> points s. \<forall>y \<in> points t. x < y}"
  have "s_min t \<in> points t" using assms by (simp add: points_def)
  with a have "x < s_min t" by blast
  with a show "x \<in> {x \<in> points s. x < s_min t}" by simp
next
  fix x assume "x \<in> {x \<in> points s. x < s_min t}"
  then show "x \<in> {x \<in> points s. \<forall>y \<in> points t. x < y}"
    by (auto simp add: points_def)
qed

lemma above_all_points:
  assumes "s_min t < s_max t"
  shows "{x \<in> points s. \<forall>y \<in> points t. y < x} = {x \<in> points s. s_max t \<le> x}"
proof (intro set_eqI iffI)
  fix x assume a: "x \<in> {x \<in> points s. \<forall>y \<in> points t. y < x}"
  have "s_max t - 1 \<in> points t" using assms by (simp add: points_def)
  with a have "s_max t - 1 < x" by blast
  with a show "x \<in> {x \<in> points s. s_max t \<le> x}" by simp
next
  fix x assume "x \<in> {x \<in> points s. s_max t \<le> x}"
  then show "x \<in> {x \<in> points s. \<forall>y \<in> points t. y < x}"
    by (auto simp add: points_def)
qed

lemma Bisect_no_overlap:
  assumes "\<not> go_max (s_min s) (s_min t) < go_min (s_max s) (s_max t)"
  shows "Bisect s t = (if s_max s \<le> s_min t then (s, zero) else (zero, s))"
  using assms
  by (simp add: Bisect_def Intersect_no_overlap(1) Let_def IsZero_def zero_def Before_def)

lemma Bisect_overlap:
  assumes "go_max (s_min s) (s_min t) < go_min (s_max s) (s_max t)"
  shows "Bisect s t = (maybeZero (s_min s) (go_max (s_min s) (s_min t)),
                       maybeZero (go_min (s_max s) (s_max t)) (s_max s))"
  using assms by (auto simp add: Bisect_def Intersect_def IsZero_def Let_def)

lemma Bisect_orientation:
  assumes "s_min t < s_max t"
  shows "points (fst (Bisect s t)) = {x \<in> points s. x < s_min t}"
    and "points (snd (Bisect s t)) = {x \<in> points s. s_max t \<le> x}"
proof -
  let ?lo = "go_max (s_min s) (s_min t)" and ?hi = "go_min (s_max s) (s_max t)"
  have l: "points (fst (Bisect s t)) =
      (if ?lo < ?hi then {x. s_min s \<le> x \<and> x < ?lo}
       else if s_max s \<le> s_min t then points s else {})"
    by (simp add: Bisect_overlap Bisect_no_overlap points_maybeZero points_zero)
  have u: "points (snd (Bisect s t)) =
      (if ?lo < ?hi then {x. ?hi \<le> x \<and> x < s_max s}
       else if s_max s \<le> s_min t then {} else points s)"
    by (simp add: Bisect_overlap Bisect_no_overlap points_maybeZero points_zero)
  show "points (fst (Bisect s t)) = {x \<in> points s. x < s_min t}"
    unfolding l using assms
    by (auto simp add: points_def go_max_def go_min_def split: if_splits)
  show "points (snd (Bisect s t)) = {x \<in> points s. s_max t \<le> x}"
    unfolding u using assms
    by (auto simp add: points_def go_max_def go_min_def split: if_splits)
qed

lemma Bisect_parts:
  assumes "s_min s \<le> s_max s" and "s_min t \<le> s_max t"
  shows "case Bisect s t of (lower, upper) \<Rightarrow>
           points lower \<union> points upper = points s - points t \<and>
           points lower \<inter> points upper = {} \<and>
           points (Intersect s t) = points s \<inter> points t \<and>
           (points s \<inter> points t \<noteq> {} \<longrightarrow>
              points lower = {x \<in> points s. \<forall>y \<in> points s \<inter> points t. x < y} \<and>
              points upper = {x \<in> points s. \<forall>y \<in> points s \<inter> points t. y < x})"
proof (cases "go_max (s_min s) (s_min t) < go_min (s_max s) (s_max t)")
  case False
  then have e: "points s \<inter> points t = {}" by (auto simp add: points_inter)
  have i: "points (Intersect s t) = {}"
    using False by (simp add: Intersect_no_overlap points_zero)
  have "Bisect s t = (if Before s t then (s, zero) else (zero, s))"
    using False by (simp add: Bisect_def Intersect_no_overlap(1) Let_def IsZero_def zero_def)
  with e i show ?thesis by (auto simp add: points_zero)
next
  case True
  let ?lo = "go_max (s_min s) (s_min t)" and ?hi = "go_min (s_max s) (s_max t)"
  have b: "Bisect s t = (maybeZero (s_min s) ?lo, maybeZero ?hi (s_max s))"
    using True by (auto simp add: Bisect_def Intersect_def IsZero_def Let_def)
  have ov: "points s \<inter> points t = {x. ?lo \<le> x \<and> x < ?hi}" by (rule points_inter)
  have i: "points (Intersect s t) = {x. ?lo \<le> x \<and> x < ?hi}"
    using True by (simp add: Intersect_overlap points_def)
  have bounds: "s_min s \<le> ?lo" "?hi \<le> s_max s" "s_min t \<le> ?lo" "?hi \<le> s_max t"
    by (simp_all add: go_max_def go_min_def)
  have lo_in: "?lo \<in> {x. ?lo \<le> x \<and> x < ?hi}" using True by simp
  have hi_in: "?hi - 1 \<in> {x. ?lo \<le> x \<and> x < ?hi}" using True by simp
  have lower: "{x. s_min s \<le> x \<and> x < ?lo}
      = {x \<in> points s. \<forall>y \<in> {x. ?lo \<le> x \<and> x < ?hi}. x < y}"
  proof (intro set_eqI iffI)
    fix x assume "x \<in> {x. s_min s \<le> x \<and> x < ?lo}"
    then show "x \<in> {x \<in> points s. \<forall>y \<in> {x. ?lo \<le> x \<and> x < ?hi}. x < y}"
      using True bounds by (auto simp add: points_def)
  next
    fix x assume a: "x \<in> {x \<in> points s. \<forall>y \<in> {x. ?lo \<le> x \<and> x < ?hi}. x < y}"
    then have "x < ?lo" using lo_in by blast
    with a show "x \<in> {x. s_min s \<le> x \<and> x < ?lo}" by (simp add: points_def)
  qed
  have upper: "{x. ?hi \<le> x \<and> x < s_max s}
      = {x \<in> points s. \<forall>y \<in> {x. ?lo \<le> x \<and> x < ?hi}. y < x}"
  proof (intro set_eqI iffI)
    fix x assume "x \<in> {x. ?hi \<le> x \<and> x < s_max s}"
    then show "x \<in> {x \<in> points s. \<forall>y \<in> {x. ?lo \<le> x \<and> x < ?hi}. y < x}"
      using True bounds by (auto simp add: points_def)
  next
    fix x assume a: "x \<in> {x \<in> points s. \<forall>y \<in> {x. ?lo \<le> x \<and> x < ?hi}. y < x}"
    then have "?hi - 1 < x" using hi_in by blast
    with a show "x \<in> {x. ?hi \<le> x \<and> x < s_max s}" by (simp add: points_def)
  qed
  have diff: "{x. s_min s \<le> x \<and> x < ?lo} \<union> {x. ?hi \<le> x \<and> x < s_max s}
      = points s - points t"
    using True bounds by (auto simp add: points_def go_max_def go_min_def split: if_splits)
  have disj: "{x. s_min s \<le> x \<and> x < ?lo} \<inter> {x. ?hi \<le> x \<and> x < s_max s} = {}"
    using True by auto
  show ?thesis
    unfolding b prod.case points_maybeZero i ov
    using diff disj lower upper by (simp only: ov simp_thms)
qed

section \<open>Facts about the Expand methods\<close>


















section \<open>ArrayOffset (claim C6)\<close>

text \<open>
  C6 as stated gives, for every negative position, the result \<open>(position % m) + m\<close>.
  At a negative multiple of the modulus the truncating remainder is \<open>0\<close>, so that formula
  gives \<open>m\<close> itself, outside \<open>[0, m)\<close>; the guard \<^verbatim>\<open>if maybeNegative < 0\<close> of the code
  returns \<open>0\<close> there. Modulus 10, position -10: the code returns 0, the formula gives 10.
\<close>

theorem ArrayOffset_negative_multiple_counterexample:
  "(-10 :: int) < 0 \<and> ArrayOffset 10 (-10) = Inr 0 \<and> go_rem (-10) 10 + 10 = 10"
  by (simp add: ArrayOffset_def GoModulo_def and_then_def go_rem_def)

text \<open>
  C6, amended: for a modulus \<open>m > 0\<close> (a Go \<^verbatim>\<open>int\<close>) and every integer position,
  \<^verbatim>\<open>ArrayOffset\<close> returns the position unchanged when \<open>0 \<le> position < m\<close>, the
  truncating remainder \<open>position % m\<close> when \<open>position \<ge> m\<close>, and for a negative
  position \<open>0\<close> when the truncating remainder is \<open>0\<close> and \<open>(position % m) + m\<close>
  otherwise. It never panics, the result is in \<open>[0, m)\<close>, and modulus 10 with position -11
  gives 9.
\<close>

theorem ArrayOffset_cases:
  assumes "0 < m" and "int64 m"
  shows "ArrayOffset m position =
           Inr (if 0 \<le> position \<and> position < m then position
                else if position \<ge> m then go_rem position m
                else if go_rem position m = 0 then 0
                else go_rem position m + m)
         \<and> (\<exists>r. ArrayOffset m position = Inr r \<and> 0 \<le> r \<and> r < m)
         \<and> ArrayOffset 10 (-11) = Inr 9"
proof (intro conjI)
  have off: "ArrayOffset m position = Inr (position mod m)"
    using assms by (rule ArrayOffset_pos)
  have val: "position mod m =
      (if 0 \<le> position \<and> position < m then position
       else if position \<ge> m then go_rem position m
       else if go_rem position m = 0 then 0
       else go_rem position m + m)"
  proof (cases "position < 0")
    case True
    have "position mod m \<noteq> m" using pos_mod_bound [of m position] assms by linarith
    with True assms show ?thesis by (simp add: go_rem_neg_floor)
  next
    case False
    with assms show ?thesis by (simp add: go_rem_nonneg)
  qed
  from off show "ArrayOffset m position =
           Inr (if 0 \<le> position \<and> position < m then position
                else if position \<ge> m then go_rem position m
                else if go_rem position m = 0 then 0
                else go_rem position m + m)"
    by (simp only: val [symmetric])
  have "0 \<le> position mod m \<and> position mod m < m" using assms by simp
  with off show "\<exists>r. ArrayOffset m position = Inr r \<and> 0 \<le> r \<and> r < m" by blast
  show "ArrayOffset 10 (-11) = Inr 9"
    by (simp add: ArrayOffset_pos int64_10)
qed

theorem ArrayOffset_cases_witness:
  "ArrayOffset 10 (-10) = Inr 0 \<and> ArrayOffset 10 (-11) = Inr 9 \<and>
   (\<exists>r. ArrayOffset 10 (-10) = Inr r \<and> 0 \<le> r \<and> r < 10)"
  using ArrayOffset_cases [of 10 "-10"] by (simp add: int64_10 go_rem_def)

section \<open>Interval sizes (claim C7)\<close>

text \<open>
  C7: for a modulus \<open>m > 0\<close> and integers \<open>a\<close>, \<open>b\<close>, with \<open>a'\<close> and \<open>b'\<close> the
  results of \<^verbatim>\<open>ArrayOffset\<close>: \<^verbatim>\<open>IntervalSizeForward(a, b)\<close> returns 0 if \<open>a' = b'\<close>,
  \<open>b' - a'\<close> if \<open>a' < b'\<close> and \<open>b' - a' + m\<close> otherwise; \<^verbatim>\<open>IntervalSizeMin(a, b)\<close>
  returns the smaller of \<^verbatim>\<open>IntervalSizeForward(a, b)\<close> and
  \<^verbatim>\<open>IntervalSizeForward(b, a)\<close>; with modulus 10 the forward size from 9 to 7 is 8 and
  the minimum size is 2. The intermediate sum \<open>b' + m\<close> of the code may wrap around; the
  results do not depend on it.
\<close>

theorem IntervalSize_spec:
  assumes "0 < m" and "int64 m"
  shows "(let a' = a mod m; b' = b mod m;
              x = (if a' = b' then 0 else if a' < b' then b' - a' else b' - a' + m);
              y = (if b' = a' then 0 else if b' < a' then a' - b' else a' - b' + m)
          in ArrayOffset m a = Inr a' \<and> ArrayOffset m b = Inr b' \<and>
             IntervalSizeForward m a b = Inr x \<and> IntervalSizeForward m b a = Inr y \<and>
             IntervalSizeMin m a b = Inr (min x y)) \<and>
         IntervalSizeForward 10 9 7 = Inr 8 \<and> IntervalSizeMin 10 9 7 = Inr 2"
proof -
  have oa: "ArrayOffset m a = Inr (a mod m)" and ob: "ArrayOffset m b = Inr (b mod m)"
    using assms by (rule ArrayOffset_pos)+
  have fab: "IntervalSizeForward m a b =
      Inr (if a mod m = b mod m then 0
           else if a mod m < b mod m then b mod m - a mod m else b mod m - a mod m + m)"
    using assms by (simp add: IntervalSizeForward_pos)
  have fba: "IntervalSizeForward m b a =
      Inr (if b mod m = a mod m then 0
           else if b mod m < a mod m then a mod m - b mod m else a mod m - b mod m + m)"
    using assms by (simp add: IntervalSizeForward_pos)
  have fmin: "IntervalSizeMin m a b =
      Inr (min (if a mod m = b mod m then 0
                else if a mod m < b mod m then b mod m - a mod m else b mod m - a mod m + m)
               (if b mod m = a mod m then 0
                else if b mod m < a mod m then a mod m - b mod m else a mod m - b mod m + m))"
    using assms by (simp add: IntervalSizeMin_pos intMin_def min_def)
  have e1: "IntervalSizeForward 10 9 7 = Inr 8"
    by (simp add: IntervalSizeForward_pos int64_10)
  have e2: "IntervalSizeMin 10 9 7 = Inr 2"
    by (simp add: IntervalSizeMin_pos int64_10 intMin_def)
  show ?thesis
    unfolding Let_def using oa ob fab fba fmin e1 e2 by (intro conjI)
qed

theorem IntervalSize_spec_witness:
  "ArrayOffset 10 19 = Inr 9 \<and> ArrayOffset 10 (-3) = Inr 7 \<and>
   IntervalSizeForward 10 19 (-3) = Inr 8 \<and> IntervalSizeForward 10 (-3) 19 = Inr 2 \<and>
   IntervalSizeMin 10 19 (-3) = Inr 2"
  using IntervalSize_spec [of 10 19 "-3"] by (simp add: int64_10 Let_def)

section \<open>The decomposition into real intervals (claims C3 and C9)\<close>

text \<open>
  C3: for an interval constructed with a modulus \<open>m > 0\<close>, \<^verbatim>\<open>RealIntervals()\<close>
  returns no part when the interval is empty; exactly one part, \<open>[start, start + size)\<close>,
  when the interval does not cross the boundary from \<open>m\<close> to 0 (\<open>start + size \<le> m\<close>);
  and exactly two parts, \<open>[start, m)\<close> followed by \<open>[0, size - (m - start))\<close>, when it
  does. Modulus 10, start 9, size 4 decomposes into \<open>[9, 10)\<close> and \<open>[0, 3)\<close>, and
  \<^verbatim>\<open>Contains(2)\<close> and \<^verbatim>\<open>Contains(9)\<close> are true while \<^verbatim>\<open>Contains(3)\<close> is false.
  Each part is given both as the value the code builds and by its \<^verbatim>\<open>Start()\<close> and
  \<^verbatim>\<open>End()\<close>.
\<close>

theorem RealIntervals_parts:
  assumes "FromStartSizeInt m st sz = Inr iv" and "0 < m" and "int64 m"
  shows "RealIntervals iv =
           (if IsEmpty iv then []
            else if Start iv + Size iv \<le> m then [RealFromStartSize (Start iv) (Size iv)]
            else [RealFromStartSize (Start iv) (m - Start iv),
                  RealFromStartSize 0 (Size iv - (m - Start iv))])
         \<and> map (\<lambda>r. (Real_Start r, Real_End r)) (RealIntervals iv) =
           (if IsEmpty iv then []
            else if Start iv + Size iv \<le> m then [(Start iv, Start iv + Size iv)]
            else [(Start iv, m), (0, Size iv - (m - Start iv))])
         \<and> map (\<lambda>r. (Real_Start r, Real_End r))
              (RealIntervals \<lparr>iv_modulus = 10, iv_start = 9, iv_size = 4\<rparr>) = [(9, 10), (0, 3)]
         \<and> FromStartSizeInt 10 9 4 = Inr \<lparr>iv_modulus = 10, iv_start = 9, iv_size = 4\<rparr>
         \<and> Contains \<lparr>iv_modulus = 10, iv_start = 9, iv_size = 4\<rparr> 2 = Inr True
         \<and> Contains \<lparr>iv_modulus = 10, iv_start = 9, iv_size = 4\<rparr> 9 = Inr True
         \<and> Contains \<lparr>iv_modulus = 10, iv_start = 9, iv_size = 4\<rparr> 3 = Inr False"
proof -
  have parts: "RealIntervals iv =
           (if IsEmpty iv then []
            else if Start iv + Size iv \<le> iv_modulus iv
              then [RealFromStartSize (Start iv) (Size iv)]
            else [RealFromStartSize (Start iv) (iv_modulus iv - Start iv),
                  RealFromStartSize 0 (Size iv - (iv_modulus iv - Start iv))])
         \<and> map (\<lambda>r. (Real_Start r, Real_End r)) (RealIntervals iv) =
           (if IsEmpty iv then []
            else if Start iv + Size iv \<le> iv_modulus iv then [(Start iv, Start iv + Size iv)]
            else [(Start iv, iv_modulus iv), (0, Size iv - (iv_modulus iv - Start iv))])"
    if v: "valid iv" for iv
  proof -
    have b: "0 \<le> iv_start iv" "iv_start iv < iv_modulus iv" "0 \<le> iv_size iv"
      "iv_size iv \<le> iv_modulus iv" "int64 (iv_modulus iv)"
      using v by (simp_all add: valid_def)
    show ?thesis
    proof (cases "iv_size iv = 0")
      case True
      then show ?thesis
        by (simp add: RealIntervals_def realIntervals_valid [OF v] Real_IsEmpty_def
            Real_Size_def IsEmpty_def)
    next
      case nz: False
      show ?thesis
      proof (cases "iv_start iv + iv_size iv \<le> iv_modulus iv")
        case True
        have "Real_End \<lparr>r_start = iv_start iv, r_size = iv_size iv\<rparr> = iv_start iv + iv_size iv"
          using b True by (intro Real_End_small [of "iv_modulus iv"]) simp_all
        with nz True show ?thesis
          by (simp add: RealIntervals_def realIntervals_valid [OF v] Real_IsEmpty_def
              Real_Size_def IsEmpty_def Start_def Size_def RealFromStartSize_def Real_Start_def)
      next
        case False
        have e1: "Real_End \<lparr>r_start = iv_start iv, r_size = iv_modulus iv - iv_start iv\<rparr>
            = iv_start iv + (iv_modulus iv - iv_start iv)"
          using b False by (intro Real_End_small [of "iv_modulus iv"]) simp_all
        have e2: "Real_End \<lparr>r_start = 0, r_size = iv_size iv - (iv_modulus iv - iv_start iv)\<rparr>
            = 0 + (iv_size iv - (iv_modulus iv - iv_start iv))"
          using b False by (intro Real_End_small [of "iv_modulus iv"]) simp_all
        from nz False b show ?thesis
          by (simp add: RealIntervals_def realIntervals_valid [OF v] Real_IsEmpty_def
              Real_Size_def IsEmpty_def Start_def Size_def RealFromStartSize_def Real_Start_def
              e1 e2)
      qed
    qed
  qed
  have v: "valid iv" and m: "iv_modulus iv = m"
    using FromStartSizeInt_valid [OF assms] by simp_all
  have v0: "valid \<lparr>iv_modulus = 10, iv_start = 9, iv_size = 4\<rparr>"
    by (simp add: valid_def int64_10)
  have c2: "Contains \<lparr>iv_modulus = 10, iv_start = 9, iv_size = 4\<rparr> 2 = Inr True"
    by (simp add: Contains_valid [OF v0] ContainsExactInt_valid [OF v0])
  have c9: "Contains \<lparr>iv_modulus = 10, iv_start = 9, iv_size = 4\<rparr> 9 = Inr True"
    by (simp add: Contains_valid [OF v0] ContainsExactInt_valid [OF v0])
  have c3: "Contains \<lparr>iv_modulus = 10, iv_start = 9, iv_size = 4\<rparr> 3 = Inr False"
    by (simp add: Contains_valid [OF v0] ContainsExactInt_valid [OF v0])
  have p0: "map (\<lambda>r. (Real_Start r, Real_End r))
              (RealIntervals \<lparr>iv_modulus = 10, iv_start = 9, iv_size = 4\<rparr>) = [(9, 10), (0, 3)]"
    using parts [OF v0, THEN conjunct2] by (simp add: IsEmpty_def Start_def Size_def)
  note P = parts [OF v, unfolded m]
  show ?thesis
    using P [THEN conjunct1] P [THEN conjunct2] p0 FromStartSizeInt_10_9_4 c2 c9 c3 by (intro conjI)
qed

theorem RealIntervals_parts_witness:
  "FromStartSizeInt 100 5 20 = Inr \<lparr>iv_modulus = 100, iv_start = 5, iv_size = 20\<rparr> \<and>
   RealIntervals \<lparr>iv_modulus = 100, iv_start = 5, iv_size = 20\<rparr> = [RealFromStartSize 5 20] \<and>
   map (\<lambda>r. (Real_Start r, Real_End r))
     (RealIntervals \<lparr>iv_modulus = 100, iv_start = 5, iv_size = 20\<rparr>) = [(5, 25)]"
proof -
  have i: "int64 100" by (simp add: int64_def)
  have f: "FromStartSizeInt 100 5 20 = Inr \<lparr>iv_modulus = 100, iv_start = 5, iv_size = 20\<rparr>"
    by (simp add: FromStartSizeInt_pos i)
  have p: "(0::int) < 100" by simp
  note t = RealIntervals_parts [OF f p i]
  have "RealIntervals \<lparr>iv_modulus = 100, iv_start = 5, iv_size = 20\<rparr> = [RealFromStartSize 5 20]"
    using t [THEN conjunct1] by (simp add: IsEmpty_def Start_def Size_def)
  moreover have "map (\<lambda>r. (Real_Start r, Real_End r))
     (RealIntervals \<lparr>iv_modulus = 100, iv_start = 5, iv_size = 20\<rparr>) = [(5, 25)]"
    using t [THEN conjunct2, THEN conjunct1] by (simp add: IsEmpty_def Start_def Size_def)
  ultimately show ?thesis using f by (intro conjI)
qed

text \<open>
  C9: for an interval constructed with a modulus \<open>m > 0\<close>, the two parts returned by
  \<^verbatim>\<open>realIntervals\<close> are disjoint subsets of \<open>[0, m)\<close>; the first, when non-empty,
  starts at \<^verbatim>\<open>iv.Start()\<close> and the second, when non-empty, starts at 0; their sizes
  are not negative and sum to \<^verbatim>\<open>iv.Size()\<close>. So \<^verbatim>\<open>ContainsExactInt(i)\<close> is false
  for every \<open>i < 0\<close> and every \<open>i \<ge> m\<close>, also for a complete interval.
\<close>

theorem realIntervals_disjoint_in_range:
  assumes "FromStartSizeInt m st sz = Inr iv" and "0 < m" and "int64 m"
  shows "(case realIntervals iv of (a, b) \<Rightarrow>
            real_points a \<inter> real_points b = {} \<and>
            real_points a \<subseteq> {0..<m} \<and> real_points b \<subseteq> {0..<m} \<and>
            (\<not> Real_IsEmpty a \<longrightarrow> Real_Start a = Start iv) \<and>
            (\<not> Real_IsEmpty b \<longrightarrow> Real_Start b = 0) \<and>
            0 \<le> Real_Size a \<and> 0 \<le> Real_Size b \<and>
            Real_Size a + Real_Size b = Size iv)
         \<and> (\<forall>i. i < 0 \<or> m \<le> i \<longrightarrow> \<not> ContainsExactInt iv i)"
proof -
  have v: "valid iv" and m: "iv_modulus iv = m"
    using FromStartSizeInt_valid [OF assms] by simp_all
  have b: "0 \<le> iv_start iv" "iv_start iv < m" "0 \<le> iv_size iv"
    "iv_size iv \<le> m" "int64 m"
    using v m by (simp_all add: valid_def)
  have z: "real_points \<lparr>r_start = 0, r_size = 0\<rparr> = {}"
    using b by (simp add: real_points_small [of m 0 0])
  have out: "\<forall>i. i < 0 \<or> m \<le> i \<longrightarrow> \<not> ContainsExactInt iv i"
    using b by (auto simp add: ContainsExactInt_valid [OF v] m)
  have parts: "case realIntervals iv of (a, b) \<Rightarrow>
            real_points a \<inter> real_points b = {} \<and>
            real_points a \<subseteq> {0..<m} \<and> real_points b \<subseteq> {0..<m} \<and>
            (\<not> Real_IsEmpty a \<longrightarrow> Real_Start a = Start iv) \<and>
            (\<not> Real_IsEmpty b \<longrightarrow> Real_Start b = 0) \<and>
            0 \<le> Real_Size a \<and> 0 \<le> Real_Size b \<and>
            Real_Size a + Real_Size b = Size iv"
  proof (cases "iv_size iv = 0")
    case True
    then show ?thesis
      by (simp add: realIntervals_valid [OF v] z Real_IsEmpty_def Real_Size_def Size_def)
  next
    case nz: False
    show ?thesis
    proof (cases "iv_start iv + iv_size iv \<le> m")
      case True
      have "real_points \<lparr>r_start = iv_start iv, r_size = iv_size iv\<rparr>
          = {iv_start iv..<iv_start iv + iv_size iv}"
        using b True by (intro real_points_small [of m]) simp_all
      with nz True b show ?thesis
        by (simp add: realIntervals_valid [OF v] m z Real_IsEmpty_def Real_Size_def Size_def
            Real_Start_def Start_def)
    next
      case False
      have p1: "real_points \<lparr>r_start = iv_start iv, r_size = m - iv_start iv\<rparr>
          = {iv_start iv..<iv_start iv + (m - iv_start iv)}"
        using b False by (intro real_points_small [of m]) simp_all
      have p2: "real_points \<lparr>r_start = 0, r_size = iv_size iv - (m - iv_start iv)\<rparr>
          = {0..<0 + (iv_size iv - (m - iv_start iv))}"
        using b False by (intro real_points_small [of m]) simp_all
      from nz False b show ?thesis
        by (auto simp add: realIntervals_valid [OF v] m p1 p2 Real_IsEmpty_def Real_Size_def
            Size_def Real_Start_def Start_def)
    qed
  qed
  from parts out show ?thesis by (rule conjI)
qed

theorem realIntervals_disjoint_in_range_witness:
  "FromStartSizeInt 3 0 50 = Inr \<lparr>iv_modulus = 3, iv_start = 0, iv_size = 3\<rparr> \<and>
   \<not> ContainsExactInt \<lparr>iv_modulus = 3, iv_start = 0, iv_size = 3\<rparr> 3 \<and>
   \<not> ContainsExactInt \<lparr>iv_modulus = 3, iv_start = 0, iv_size = 3\<rparr> (-1) \<and>
   ContainsExactInt \<lparr>iv_modulus = 3, iv_start = 0, iv_size = 3\<rparr> 2"
proof -
  have i: "int64 3" by (simp add: int64_def)
  have f: "FromStartSizeInt 3 0 50 = Inr \<lparr>iv_modulus = 3, iv_start = 0, iv_size = 3\<rparr>"
    by (simp add: FromStartSizeInt_pos i)
  have p: "(0::int) < 3" by simp
  have v: "valid \<lparr>iv_modulus = 3, iv_start = 0, iv_size = 3\<rparr>"
    by (simp add: valid_def i)
  have "\<forall>i. i < 0 \<or> 3 \<le> i \<longrightarrow> \<not> ContainsExactInt \<lparr>iv_modulus = 3, iv_start = 0, iv_size = 3\<rparr> i"
    using realIntervals_disjoint_in_range [OF f p i] by (rule conjunct2)
  then have "\<not> ContainsExactInt \<lparr>iv_modulus = 3, iv_start = 0, iv_size = 3\<rparr> 3"
    and "\<not> ContainsExactInt \<lparr>iv_modulus = 3, iv_start = 0, iv_size = 3\<rparr> (-1)"
    by simp_all
  moreover have "ContainsExactInt \<lparr>iv_modulus = 3, iv_start = 0, iv_size = 3\<rparr> 2"
    by (simp add: ContainsExactInt_valid [OF v])
  ultimately show ?thesis using f by simp
qed

section \<open>Construction (claim C1)\<close>

text \<open>
  C1 says that \<^verbatim>\<open>FromStartSizeInt(m, start, size)\<close> succeeds for every \<open>m \<ge> 0\<close> and
  \<open>size \<ge> 0\<close>. The guard of the code, \<^verbatim>\<open>if m < 0\<close>, lets the modulus 0 through, the
  size is clamped to 0, and \<^verbatim>\<open>m.ArrayOffset(start)\<close> then computes \<^verbatim>\<open>start % 0\<close>:
  the construction ends in Go's run-time panic for a division by zero, for every start and
  every size that is not negative. Lemma \<open>FromStartSizeInt_fails_iff\<close> above is what the code
  does on all inputs: it fails exactly when \<open>m \<le> 0\<close> or \<open>size < 0\<close>.
\<close>

theorem FromStartSizeInt_zero_modulus_panics:
  "FromStartSizeInt 0 0 0 = Inl DivideByZero \<and> FromStartSizeInt 0 7 3 = Inl DivideByZero"
  by (simp add: FromStartSizeInt_def ArrayOffset_def GoModulo_def and_then_def)

section \<open>Intersection of real intervals (claim C4)\<close>

text \<open>
  C4 is the conventional intersection: start \<open>max\<close> of the starts, end \<open>min\<close> of the
  ends, empty when that start is not below that end. The code takes \<^verbatim>\<open>intMax\<close> of the
  two ends. For the disjoint intervals \<open>[0, 2)\<close> and \<open>[5, 7)\<close> the conventional
  intersection is empty (start 5, end 2); the code returns \<open>[5, 7)\<close>.
\<close>

theorem Real_Intersection_of_disjoint_intervals:
  "Real_Intersection (RealFromStartSize 0 2) (RealFromStartSize 5 2) = RealFromStartSize 5 2 \<and>
   max (Real_Start (RealFromStartSize 0 2)) (Real_Start (RealFromStartSize 5 2)) = 5 \<and>
   min (Real_End (RealFromStartSize 0 2)) (Real_End (RealFromStartSize 5 2)) = 2 \<and>
   Real_Intersection (RealFromStartSize 0 2) (RealFromStartSize 5 2) \<noteq> RealEmpty"
  by (simp add: Real_Intersection_def RealFromStartSize_def Real_Start_def Real_End_def
      RealEmpty_def intMax_def wrap64_id int64_def)

section \<open>Equality of the sets of two intervals (claim C5)\<close>

text \<open>
  C5 as stated asks for equal starts (after a complete interval's start is replaced by 0)
  whenever \<^verbatim>\<open>EqualSets\<close> is true. The code returns true for two empty intervals before it
  looks at any start (\<^verbatim>\<open>if iv.IsEmpty() { return true }\<close>): the empty intervals of modulus
  10 with starts 3 and 5 are equal sets, neither is complete, and their starts differ.
\<close>

theorem EqualSets_empty_counterexample:
  "FromStartSizeInt 10 3 0 = Inr \<lparr>iv_modulus = 10, iv_start = 3, iv_size = 0\<rparr> \<and>
   FromStartSizeInt 10 5 0 = Inr \<lparr>iv_modulus = 10, iv_start = 5, iv_size = 0\<rparr> \<and>
   EqualSets \<lparr>iv_modulus = 10, iv_start = 3, iv_size = 0\<rparr>
             \<lparr>iv_modulus = 10, iv_start = 5, iv_size = 0\<rparr> = Inr True \<and>
   Size \<lparr>iv_modulus = 10, iv_start = 3, iv_size = 0\<rparr>
     = Size \<lparr>iv_modulus = 10, iv_start = 5, iv_size = 0\<rparr> \<and>
   \<not> IsComplete \<lparr>iv_modulus = 10, iv_start = 3, iv_size = 0\<rparr> \<and>
   \<not> IsComplete \<lparr>iv_modulus = 10, iv_start = 5, iv_size = 0\<rparr> \<and>
   Start \<lparr>iv_modulus = 10, iv_start = 3, iv_size = 0\<rparr>
     \<noteq> Start \<lparr>iv_modulus = 10, iv_start = 5, iv_size = 0\<rparr>"
  by (simp add: FromStartSizeInt_pos int64_10 EqualSets_def Size_def IsEmpty_def
      IsComplete_def Start_def)

text \<open>
  C5, amended: for intervals \<open>a\<close> and \<open>b\<close> constructed with positive moduli,
  \<^verbatim>\<open>a.EqualSets(b)\<close> returns true if and only if \<^verbatim>\<open>a.Size() == b.Size()\<close> and either
  the intervals are empty or, after the start of a complete interval is replaced by 0 for
  the comparison, the start of \<open>a\<close> equals the start of \<open>b\<close>. The moduli enter only
  through the test for completeness.
\<close>

theorem EqualSets_spec:
  assumes "FromStartSizeInt m st sz = Inr a" and "0 < m" and "int64 m"
    and "FromStartSizeInt m' st' sz' = Inr b" and "0 < m'" and "int64 m'"
  shows "EqualSets a b =
    Inr (Size a = Size b \<and>
         (IsEmpty a \<or>
          (if IsComplete a then 0 else Start a) = (if IsComplete b then 0 else Start b)))"
proof -
  have va: "valid a" using FromStartSizeInt_valid [OF assms(1-3)] by simp
  have vb: "valid b" using FromStartSizeInt_valid [OF assms(4-6)] by simp
  show ?thesis
    by (simp add: EqualSets_def normalized_valid [OF va] normalized_valid [OF vb]
        and_then_def Start_def)
qed

theorem EqualSets_spec_witness:
  "EqualSets \<lparr>iv_modulus = 7, iv_start = 4, iv_size = 7\<rparr>
             \<lparr>iv_modulus = 7, iv_start = 0, iv_size = 7\<rparr> = Inr True \<and>
   FromStartSizeInt 7 4 7 = Inr \<lparr>iv_modulus = 7, iv_start = 4, iv_size = 7\<rparr> \<and>
   FromStartSizeInt 7 0 7 = Inr \<lparr>iv_modulus = 7, iv_start = 0, iv_size = 7\<rparr>"
proof -
  have i: "int64 7" by (simp add: int64_def)
  have p: "(0::int) < 7" by simp
  have fa: "FromStartSizeInt 7 4 7 = Inr \<lparr>iv_modulus = 7, iv_start = 4, iv_size = 7\<rparr>"
    by (simp add: FromStartSizeInt_pos i)
  have fb: "FromStartSizeInt 7 0 7 = Inr \<lparr>iv_modulus = 7, iv_start = 0, iv_size = 7\<rparr>"
    by (simp add: FromStartSizeInt_pos i)
  from EqualSets_spec [OF fa p i fb p i] fa fb show ?thesis
    by (simp add: Size_def IsEmpty_def IsComplete_def Start_def)
qed

section \<open>Bisecting a span (claim C8)\<close>

text \<open>
  C8: for valid spans \<open>s\<close> and \<open>t\<close> (\<open>min \<le> max\<close>), \<^verbatim>\<open>s.Bisect(t)\<close> returns a pair
  \<open>(lower, upper)\<close> whose union is the set difference of \<open>s\<close> and \<open>t\<close>; the two parts
  are disjoint; \<^verbatim>\<open>s.Intersect(t)\<close> is the overlap of \<open>s\<close> and \<open>t\<close>; when there is an
  overlap, \<open>lower\<close> holds exactly the points of \<open>s\<close> below every point of the overlap and
  \<open>upper\<close> exactly the points of \<open>s\<close> above every point of it. The side a span lands on
  is fixed also without an overlap: whenever \<open>t\<close> has a point, \<open>lower\<close> holds exactly the
  points of \<open>s\<close> below all of \<open>t\<close> and \<open>upper\<close> exactly those above all of \<open>t\<close>; and
  when \<open>s\<close> and \<open>t\<close> share no point, the pair is \<open>(s, zero)\<close> if \<open>s\<close> ends at or
  before the start of \<open>t\<close> (\<^verbatim>\<open>s.Before(t)\<close>) and \<open>(zero, s)\<close> otherwise. Either side may
  be empty: bisecting \<open>[20, 40)\<close> by \<open>[30, 111)\<close> gives \<open>[20, 30)\<close> and the zero span,
  bisecting \<open>[0, 5)\<close> by \<open>[10, 20)\<close> gives \<open>[0, 5)\<close> and the zero span.
\<close>

theorem Bisect_spec:
  assumes "s_min s \<le> s_max s" and "s_min t \<le> s_max t"
  shows "case Bisect s t of (lower, upper) \<Rightarrow>
           points lower \<union> points upper = points s - points t \<and>
           points lower \<inter> points upper = {} \<and>
           points (Intersect s t) = points s \<inter> points t \<and>
           (points s \<inter> points t \<noteq> {} \<longrightarrow>
              points lower = {x \<in> points s. \<forall>y \<in> points s \<inter> points t. x < y} \<and>
              points upper = {x \<in> points s. \<forall>y \<in> points s \<inter> points t. y < x}) \<and>
           (points t \<noteq> {} \<longrightarrow>
              points lower = {x \<in> points s. \<forall>y \<in> points t. x < y} \<and>
              points upper = {x \<in> points s. \<forall>y \<in> points t. y < x}) \<and>
           (points s \<inter> points t = {} \<longrightarrow>
              (lower, upper) = (if s_max s \<le> s_min t then (s, zero) else (zero, s)))"
proof -
  obtain lower upper where b: "Bisect s t = (lower, upper)" by (cases "Bisect s t")
  have old: "points lower \<union> points upper = points s - points t \<and>
           points lower \<inter> points upper = {} \<and>
           points (Intersect s t) = points s \<inter> points t \<and>
           (points s \<inter> points t \<noteq> {} \<longrightarrow>
              points lower = {x \<in> points s. \<forall>y \<in> points s \<inter> points t. x < y} \<and>
              points upper = {x \<in> points s. \<forall>y \<in> points s \<inter> points t. y < x})"
    using Bisect_parts [OF assms] unfolding b by simp
  have orient: "points t \<noteq> {} \<longrightarrow>
              points lower = {x \<in> points s. \<forall>y \<in> points t. x < y} \<and>
              points upper = {x \<in> points s. \<forall>y \<in> points t. y < x}"
  proof
    assume "points t \<noteq> {}"
    then have ne: "s_min t < s_max t" by (simp only: points_nonempty)
    from Bisect_orientation [OF ne, of s]
    have "points lower = {x \<in> points s. x < s_min t}"
      and "points upper = {x \<in> points s. s_max t \<le> x}"
      unfolding b by simp_all
    then show "points lower = {x \<in> points s. \<forall>y \<in> points t. x < y} \<and>
              points upper = {x \<in> points s. \<forall>y \<in> points t. y < x}"
      by (simp only: below_all_points [OF ne] above_all_points [OF ne])
  qed
  have exact: "points s \<inter> points t = {} \<longrightarrow>
              (lower, upper) = (if s_max s \<le> s_min t then (s, zero) else (zero, s))"
  proof
    assume e: "points s \<inter> points t = {}"
    have "\<not> go_max (s_min s) (s_min t) < go_min (s_max s) (s_max t)"
    proof
      assume "go_max (s_min s) (s_min t) < go_min (s_max s) (s_max t)"
      then have "go_max (s_min s) (s_min t) \<in> points s \<inter> points t"
        by (simp only: points_inter) simp
      with e show False by blast
    qed
    then have "Bisect s t = (if s_max s \<le> s_min t then (s, zero) else (zero, s))"
      by (rule Bisect_no_overlap)
    then show "(lower, upper) = (if s_max s \<le> s_min t then (s, zero) else (zero, s))"
      by (simp only: b)
  qed
  from old orient exact show ?thesis unfolding b by simp
qed

theorem Bisect_spec_witness:
  "Bisect \<lparr>s_min = 20, s_max = 40\<rparr> \<lparr>s_min = 30, s_max = 111\<rparr>
     = (\<lparr>s_min = 20, s_max = 30\<rparr>, zero) \<and>
   points \<lparr>s_min = 20, s_max = 30\<rparr> \<union> points zero
     = points \<lparr>s_min = 20, s_max = 40\<rparr> - points \<lparr>s_min = 30, s_max = 111\<rparr> \<and>
   points zero = {} \<and>
   Bisect \<lparr>s_min = 0, s_max = 5\<rparr> \<lparr>s_min = 10, s_max = 20\<rparr>
     = (\<lparr>s_min = 0, s_max = 5\<rparr>, zero) \<and>
   Bisect \<lparr>s_min = 10, s_max = 20\<rparr> \<lparr>s_min = 0, s_max = 5\<rparr>
     = (zero, \<lparr>s_min = 10, s_max = 20\<rparr>)"
proof -
  have b: "Bisect \<lparr>s_min = 20, s_max = 40\<rparr> \<lparr>s_min = 30, s_max = 111\<rparr>
     = (\<lparr>s_min = 20, s_max = 30\<rparr>, zero)"
    by (simp add: Bisect_def Intersect_def IsZero_def Let_def go_max_def go_min_def
        maybeZero_def)
  have u: "points \<lparr>s_min = 20, s_max = 30\<rparr> \<union> points zero
     = points \<lparr>s_min = 20, s_max = 40\<rparr> - points \<lparr>s_min = 30, s_max = 111\<rparr>"
    using Bisect_spec [of "\<lparr>s_min = 20, s_max = 40\<rparr>" "\<lparr>s_min = 30, s_max = 111\<rparr>"]
    unfolding b by simp
  have d1: "points \<lparr>s_min = 0, s_max = 5\<rparr> \<inter> points \<lparr>s_min = 10, s_max = 20\<rparr> = {}"
    by (simp add: points_inter go_max_def go_min_def)
  have d2: "points \<lparr>s_min = 10, s_max = 20\<rparr> \<inter> points \<lparr>s_min = 0, s_max = 5\<rparr> = {}"
    by (simp add: points_inter go_max_def go_min_def)
  obtain l1 u1 where b1: "Bisect \<lparr>s_min = 0, s_max = 5\<rparr> \<lparr>s_min = 10, s_max = 20\<rparr> = (l1, u1)"
    by (cases "Bisect \<lparr>s_min = 0, s_max = 5\<rparr> \<lparr>s_min = 10, s_max = 20\<rparr>")
  have "(l1, u1) = (\<lparr>s_min = 0, s_max = 5\<rparr>, zero)"
    using Bisect_spec [of "\<lparr>s_min = 0, s_max = 5\<rparr>" "\<lparr>s_min = 10, s_max = 20\<rparr>"] d1
    unfolding b1 by simp
  with b1 have r1: "Bisect \<lparr>s_min = 0, s_max = 5\<rparr> \<lparr>s_min = 10, s_max = 20\<rparr>
     = (\<lparr>s_min = 0, s_max = 5\<rparr>, zero)"
    by simp
  obtain l2 u2 where b2: "Bisect \<lparr>s_min = 10, s_max = 20\<rparr> \<lparr>s_min = 0, s_max = 5\<rparr> = (l2, u2)"
    by (cases "Bisect \<lparr>s_min = 10, s_max = 20\<rparr> \<lparr>s_min = 0, s_max = 5\<rparr>")
  have "(l2, u2) = (zero, \<lparr>s_min = 10, s_max = 20\<rparr>)"
    using Bisect_spec [of "\<lparr>s_min = 10, s_max = 20\<rparr>" "\<lparr>s_min = 0, s_max = 5\<rparr>"] d2
    unfolding b2 by simp
  with b2 have r2: "Bisect \<lparr>s_min = 10, s_max = 20\<rparr> \<lparr>s_min = 0, s_max = 5\<rparr>
     = (zero, \<lparr>s_min = 10, s_max = 20\<rparr>)"
    by simp
  from b u points_zero r1 r2 show ?thesis by (intro conjI)
qed

section \<open>Expanding an interval (claim C2)\<close>

text \<open>
  C2 says that each of \<^verbatim>\<open>ExpandStart\<close>, \<^verbatim>\<open>ExpandEnd\<close> and \<^verbatim>\<open>ExpandMinimal\<close> returns
  an interval that contains every given point. \<^verbatim>\<open>ExpandEnd\<close> moves a point's minimal end
  past the modulus only when it is strictly below the start
  (\<^verbatim>\<open>if minEndToContainPosition < iv.Start()\<close>). For the point just before the start the
  minimal end equals the start, it is left where it is, and the interval does not grow:
  the interval of modulus 10 with start 5 and size 2 is returned unchanged for the point 4,
  which it does not contain. \<^verbatim>\<open>ExpandMinimal\<close> then prefers that smaller result to the one
  of \<^verbatim>\<open>ExpandStart\<close>, which does contain the point. For \<^verbatim>\<open>ExpandStart\<close> alone the
  claim holds on every constructed interval: lemma \<open>ExpandStart_contains\<close>.
\<close>

theorem ExpandEnd_misses_point_before_start:
  "FromStartSizeInt 10 5 2 = Inr \<lparr>iv_modulus = 10, iv_start = 5, iv_size = 2\<rparr> \<and>
   ExpandEnd \<lparr>iv_modulus = 10, iv_start = 5, iv_size = 2\<rparr> [4]
     = Inr \<lparr>iv_modulus = 10, iv_start = 5, iv_size = 2\<rparr> \<and>
   ExpandMinimal \<lparr>iv_modulus = 10, iv_start = 5, iv_size = 2\<rparr> [4]
     = Inr \<lparr>iv_modulus = 10, iv_start = 5, iv_size = 2\<rparr> \<and>
   ArrayOffset 10 4 = Inr 4 \<and>
   Contains \<lparr>iv_modulus = 10, iv_start = 5, iv_size = 2\<rparr> 4 = Inr False \<and>
   ExpandStart \<lparr>iv_modulus = 10, iv_start = 5, iv_size = 2\<rparr> [4]
     = Inr \<lparr>iv_modulus = 10, iv_start = 4, iv_size = 3\<rparr> \<and>
   Contains \<lparr>iv_modulus = 10, iv_start = 4, iv_size = 3\<rparr> 4 = Inr True"
proof -
  have v: "valid \<lparr>iv_modulus = 10, iv_start = 5, iv_size = 2\<rparr>"
    and v': "valid \<lparr>iv_modulus = 10, iv_start = 4, iv_size = 3\<rparr>"
    by (simp_all add: valid_def int64_10)
  have s: "ExpandStart \<lparr>iv_modulus = 10, iv_start = 5, iv_size = 2\<rparr> [4]
     = Inr \<lparr>iv_modulus = 10, iv_start = 4, iv_size = 3\<rparr>"
    by (simp add: eval_simps)
  have e: "ExpandEnd \<lparr>iv_modulus = 10, iv_start = 5, iv_size = 2\<rparr> [4]
     = Inr \<lparr>iv_modulus = 10, iv_start = 5, iv_size = 2\<rparr>"
    by (simp add: eval_simps)
  have m: "ExpandMinimal \<lparr>iv_modulus = 10, iv_start = 5, iv_size = 2\<rparr> [4]
     = Inr \<lparr>iv_modulus = 10, iv_start = 5, iv_size = 2\<rparr>"
    by (simp add: ExpandMinimal_def s e and_then_def Size_def)
  have a: "ArrayOffset 10 4 = Inr 4" by (simp add: ArrayOffset_pos int64_10)
  have c: "Contains \<lparr>iv_modulus = 10, iv_start = 5, iv_size = 2\<rparr> 4 = Inr False"
    by (simp add: Contains_valid [OF v] ContainsExactInt_valid [OF v])
  have c': "Contains \<lparr>iv_modulus = 10, iv_start = 4, iv_size = 3\<rparr> 4 = Inr True"
    by (simp add: Contains_valid [OF v'] ContainsExactInt_valid [OF v'])
  from FromStartSizeInt_10_5_2 e m a c s c' show ?thesis by (intro conjI)
qed

section \<open>The choice of ExpandMinimal (claim C10)\<close>




end
